theory Spec2Isabelle
  imports Complex_Main
begin

section \<open>Data model\<close>

text \<open>
  The repository is a small in-memory fact graph (\<^verbatim>\<open>fact_matrix.py\<close>). A \<^verbatim>\<open>Fact\<close> is a
  dataclass with four strings and a numeric trust score. Trust scores are modelled as exact
  rationals: Python's integer and floating-point arithmetic is idealised, rounding is not
  modelled.
\<close>

record Fact =
  category1 :: string
  value1 :: string
  category2 :: string
  value2 :: string
  trust_score :: rat

text \<open>A node address is a (category, value) pair; a dictionary key is an ordered pair of
  node addresses.\<close>

type_synonym node = "string \<times> string"
type_synonym key = "node \<times> node"

text \<open>
  \<^verbatim>\<open>FactDatabase.facts\<close> is a Python dict. Its iteration order (insertion order, an
  overwritten key keeps its place) decides the order in which paths are found, so the store is
  an association list in that order.
\<close>

type_synonym store = "(key \<times> Fact) list"

definition empty_db :: store where
  "empty_db = []"

definition key_of :: "Fact \<Rightarrow> key" where
  "key_of fct = ((category1 fct, value1 fct), (category2 fct, value2 fct))"

text \<open>\<^verbatim>\<open>d[k] = v\<close> on a dict: replace in place when the key is present, append otherwise.\<close>

fun dict_set :: "store \<Rightarrow> key \<Rightarrow> Fact \<Rightarrow> store" where
  "dict_set [] k v = [(k, v)]"
| "dict_set ((k', v') # rest) k v =
     (if k' = k then (k, v) # rest else (k', v') # dict_set rest k v)"

definition add_fact :: "Fact \<Rightarrow> store \<Rightarrow> store" where
  "add_fact fct facts = dict_set facts (key_of fct) fct"

text \<open>The invariant of every store built by \<^const>\<open>add_fact\<close>: keys are unique and each
  entry sits under the address pair of its own fact.\<close>

definition wf_store :: "store \<Rightarrow> bool" where
  "wf_store facts = (distinct (map fst facts) \<and> list_all (\<lambda>(k, f). k = key_of f) facts)"

section \<open>Direct contradiction\<close>

fun directly_contradicts :: "key \<Rightarrow> key \<Rightarrow> bool" where
  "directly_contradicts ((cat1_a, val1_a), (cat2_a, val2_a)) ((cat1_b, val1_b), (cat2_b, val2_b)) =
     (if cat1_a = cat1_b \<and> cat2_a = cat2_b
      then (val1_a = val1_b \<and> val2_a \<noteq> val2_b) \<or> (val2_a = val2_b \<and> val1_a \<noteq> val1_b)
      else False)"

section \<open>Path trust\<close>

text \<open>The loop \<^verbatim>\<open>for i in range(1, len(path))\<close> is a fold over the indices, reading
  \<^verbatim>\<open>path[i]\<close>; every index is in range.\<close>

definition calculate_path_trust :: "Fact list \<Rightarrow> rat" where
  "calculate_path_trust path =
     (if path = [] then 0
      else fold (\<lambda>i trust.
                   let decay = (trust_score (path ! i) * trust) / 10000
                   in min trust (trust_score (path ! i)) * decay)
                [1 ..< length path] (trust_score (path ! 0)))"

section \<open>Supporting-path search\<close>

text \<open>
  \<^verbatim>\<open>_find_supporting_paths\<close> runs the nested function \<^verbatim>\<open>explore_path\<close>, which mutates three
  variables of the enclosing call: the set \<^verbatim>\<open>visited\<close> of keys on the path in progress, the
  list \<^verbatim>\<open>paths\<close> of recorded paths and the set \<^verbatim>\<open>seen_paths\<close> of recorded edge sets
  (frozensets of keys). They are threaded through the model as a record.
\<close>

record search_state =
  visited :: "key set"
  paths :: "Fact list list"
  seen_paths :: "key set set"

text \<open>The test whether a fact touches the current node, and the node on its other side (the
  source's \<^verbatim>\<open>connects_to_current\<close>, \<^verbatim>\<open>next_val\<close>, \<^verbatim>\<open>next_cat\<close>): \<open>None\<close> when it does not
  connect, otherwise \<open>Some (next_val, next_cat)\<close>.\<close>

definition next_hop :: "Fact \<Rightarrow> string \<Rightarrow> string \<Rightarrow> (string \<times> string) option" where
  "next_hop fct current_val current_cat =
     (if category1 fct = current_cat \<and> value1 fct = current_val
      then Some (value2 fct, category2 fct)
      else if category2 fct = current_cat \<and> value2 fct = current_val
      then Some (value1 fct, category1 fct)
      else None)"

text \<open>
  \<^verbatim>\<open>explore_path\<close> is the recursive call with its depth test; \<^verbatim>\<open>explore_loop\<close> is its
  \<^verbatim>\<open>for key, fact in self.facts.items()\<close> loop over the remaining items.
\<close>

function explore_path ::
    "store \<Rightarrow> search_state \<Rightarrow> string \<Rightarrow> string \<Rightarrow> string \<Rightarrow> string \<Rightarrow> Fact list \<Rightarrow> nat \<Rightarrow> search_state"
  and explore_loop ::
    "store \<Rightarrow> (key \<times> Fact) list \<Rightarrow> search_state \<Rightarrow> string \<Rightarrow> string \<Rightarrow> string \<Rightarrow> string
      \<Rightarrow> Fact list \<Rightarrow> nat \<Rightarrow> search_state"
where
  "explore_path facts st current_val current_cat target_val target_cat current_path depth =
     (if depth > 3 then st
      else explore_loop facts facts st current_val current_cat target_val target_cat
             current_path depth)"
| "explore_loop facts [] st current_val current_cat target_val target_cat current_path depth = st"
| "explore_loop facts ((key, fct) # rest) st current_val current_cat target_val target_cat
       current_path depth =
     (if key \<in> visited st
      then explore_loop facts rest st current_val current_cat target_val target_cat
             current_path depth
      else (case next_hop fct current_val current_cat of
              None \<Rightarrow>
                explore_loop facts rest st current_val current_cat target_val target_cat
                  current_path depth
            | Some (next_val, next_cat) \<Rightarrow>
                let st1 = st\<lparr>visited := insert key (visited st)\<rparr>;
                    new_path = current_path @ [fct];
                    st2 = (if next_cat = target_cat \<and> next_val = target_val
                           then (let path_key = key_of ` set new_path
                                 in if path_key \<notin> seen_paths st1
                                    then st1\<lparr>paths := paths st1 @ [new_path],
                                             seen_paths := insert path_key (seen_paths st1)\<rparr>
                                    else st1)
                           else explore_path facts st1 next_val next_cat target_val target_cat
                                  new_path (depth + 1));
                    st3 = st2\<lparr>visited := visited st2 - {key}\<rparr>
                in explore_loop facts rest st3 current_val current_cat target_val target_cat
                     current_path depth))"
  by pat_completeness auto

termination
  by (relation "inv_image (less_than <*lex*> less_than)
        (\<lambda>x. case x of
           Inl (facts, st, cv, cc, tv, tc, cp, depth) \<Rightarrow>
             (if depth > 3 then 0 else 2 * (4 - depth) + 2, 0)
         | Inr (facts, items, st, cv, cc, tv, tc, cp, depth) \<Rightarrow>
             (2 * (4 - depth) + 1, length items))")
    auto

declare explore_path.simps [simp del]

definition find_supporting_paths :: "store \<Rightarrow> key \<Rightarrow> Fact list list" where
  "find_supporting_paths facts fact_key =
     (case fact_key of ((cat1, val1), (cat2, val2)) \<Rightarrow>
        paths (explore_path facts \<lparr>visited = {}, paths = [], seen_paths = {}\<rparr>
                 val1 cat1 val2 cat2 [] 0))"

section \<open>Trust of a candidate fact\<close>

text \<open>
  \<^verbatim>\<open>max(fact.trust_score for fact in direct_contradictions)\<close> is only reached with a
  non-empty list: it starts from the first score and folds \<open>max\<close> over the others. The
  second loop starts from \<^verbatim>\<open>max_support = 0\<close>.
\<close>

definition get_fact_trust :: "store \<Rightarrow> string \<Rightarrow> string \<Rightarrow> string \<Rightarrow> string \<Rightarrow> rat" where
  "get_fact_trust facts cat1 val1 cat2 val2 =
     (let new_fact_key = ((cat1, val1), (cat2, val2));
          direct_contradictions =
            map snd (filter (\<lambda>(existing_key, existing_fact).
                               directly_contradicts new_fact_key existing_key) facts)
      in case direct_contradictions of
           d # ds \<Rightarrow>
             let contradiction_impact = fold (\<lambda>g m. max m (trust_score g)) ds (trust_score d)
             in max 0 (100 - contradiction_impact)
         | [] \<Rightarrow>
             let supporting_paths = find_supporting_paths facts new_fact_key
             in if supporting_paths \<noteq> []
                then fold (\<lambda>path max_support. max max_support (calculate_path_trust path))
                       supporting_paths 0
                else 50)"

section \<open>Indirect contradictions\<close>

definition find_all_connections :: "store \<Rightarrow> string \<Rightarrow> string \<Rightarrow> node set" where
  "find_all_connections facts category val =
     fold (\<lambda>(key, fct) connections.
             if category1 fct = category \<and> value1 fct = val
             then insert (category2 fct, value2 fct) connections
             else if category2 fct = category \<and> value2 fct = val
             then insert (category1 fct, value1 fct) connections
             else connections)
          facts {}"

definition leads_to_contradiction :: "Fact list \<Rightarrow> key \<Rightarrow> bool" where
  "leads_to_contradiction path fact_key =
     (if path = [] then False
      else let last_fact = last path;
               last_fact_key = ((category1 last_fact, value1 last_fact),
                                (category2 last_fact, value2 last_fact))
           in directly_contradicts last_fact_key fact_key)"

text \<open>
  \<^verbatim>\<open>_find_all_connections\<close> returns a Python set of tuples, and the two loops of
  \<^verbatim>\<open>_find_indirect_contradictions\<close> iterate over such sets. The order of that iteration is
  not fixed by the program (it follows string hashes), so it is a parameter \<open>iter\<close> that
  lists a set's elements.
\<close>

definition find_indirect_contradictions ::
    "(node set \<Rightarrow> node list) \<Rightarrow> store \<Rightarrow> key \<Rightarrow> Fact list list" where
  "find_indirect_contradictions iter facts fact_key =
     (case fact_key of ((cat1, val1), (cat2, val2)) \<Rightarrow>
        let val1_connections = find_all_connections facts cat1 val1;
            val2_connections = find_all_connections facts cat2 val2;
            from_val1 =
              concat (map (\<lambda>(connected_cat, connected_val).
                             filter (\<lambda>path. leads_to_contradiction path fact_key)
                               (find_supporting_paths facts
                                  ((cat1, val1), (connected_cat, connected_val))))
                          (iter val1_connections));
            from_val2 =
              concat (map (\<lambda>(connected_cat, connected_val).
                             filter (\<lambda>path. leads_to_contradiction path fact_key)
                               (find_supporting_paths facts
                                  ((cat2, val2), (connected_cat, connected_val))))
                          (iter val2_connections))
        in from_val1 @ from_val2)"

text \<open>\<^verbatim>\<open>0.5 ** (len(path) - 1)\<close> has an integer exponent, \<open>-1\<close> for the empty path.\<close>

definition calculate_contradiction_impact :: "Fact list \<Rightarrow> rat" where
  "calculate_contradiction_impact path =
     (let path_trust = calculate_path_trust path
      in path_trust * power_int (1 / 2) (int (length path) - 1))"

section \<open>The diagnostic query\<close>

text \<open>An entry of a result list is a dict of an item (under \<^verbatim>\<open>"fact"\<close> or \<^verbatim>\<open>"path"\<close>) and its
  \<^verbatim>\<open>"trust"\<close>; the result is a dict of three such lists.\<close>

record 'a scored =
  item :: 'a
  trust :: rat

record relationships =
  direct_contradictions :: "Fact scored list"
  supporting_facts :: "Fact list scored list"
  indirect_contradictions :: "Fact list scored list"

definition analyze_fact_relationships ::
    "(node set \<Rightarrow> node list) \<Rightarrow> store \<Rightarrow> string \<Rightarrow> string \<Rightarrow> string \<Rightarrow> string \<Rightarrow> relationships" where
  "analyze_fact_relationships iter facts cat1 val1 cat2 val2 =
     (let new_fact_key = ((cat1, val1), (cat2, val2));
          dcs = map (\<lambda>(existing_key, existing_fact).
                       \<lparr>item = existing_fact, trust = trust_score existing_fact\<rparr>)
                  (filter (\<lambda>(existing_key, existing_fact).
                             directly_contradicts new_fact_key existing_key) facts);
          supporting_paths = find_supporting_paths facts new_fact_key;
          sfs = map (\<lambda>path. \<lparr>item = path, trust = calculate_path_trust path\<rparr>) supporting_paths;
          indirect = find_indirect_contradictions iter facts new_fact_key;
          ics = map (\<lambda>contradiction.
                       \<lparr>item = contradiction,
                        trust = calculate_contradiction_impact contradiction\<rparr>) indirect
      in \<lparr>direct_contradictions = dcs, supporting_facts = sfs, indirect_contradictions = ics\<rparr>)"

definition get_all_related_facts :: "store \<Rightarrow> string \<Rightarrow> string \<Rightarrow> Fact list" where
  "get_all_related_facts facts category val =
     map snd (filter (\<lambda>(key, fct).
                        (category1 fct = category \<and> value1 fct = val) \<or>
                        (category2 fct = category \<and> value2 fct = val)) facts)"

section \<open>The puzzle fixture of the tests\<close>

definition mk_fact :: "string \<Rightarrow> string \<Rightarrow> string \<Rightarrow> string \<Rightarrow> rat \<Rightarrow> Fact" where
  "mk_fact c1 v1 c2 v2 t =
     \<lparr>category1 = c1, value1 = v1, category2 = c2, value2 = v2, trust_score = t\<rparr>"

definition populated_db :: store where
  "populated_db =
     add_fact (mk_fact ''House'' ''Red'' ''Job'' ''Teacher'' 75)
       (add_fact (mk_fact ''Name'' ''Brooke'' ''Job'' ''Teacher'' 85)
         (add_fact (mk_fact ''Job'' ''Doctor'' ''Drink'' ''Coffee'' 70)
           (add_fact (mk_fact ''House'' ''Blue'' ''Job'' ''Doctor'' 80)
             (add_fact (mk_fact ''Name'' ''Alex'' ''House'' ''Blue'' 90) empty_db))))"

text \<open>The store of \<^verbatim>\<open>test_multiple_paths\<close>: two more facts, the second under a key that the
  fixture already holds.\<close>

definition multiple_paths_db :: store where
  "multiple_paths_db =
     add_fact (mk_fact ''Job'' ''Doctor'' ''Drink'' ''Coffee'' 75)
       (add_fact (mk_fact ''Name'' ''Alex'' ''Drink'' ''Coffee'' 85) populated_db)"

text \<open>A chain of four facts, \<open>0 - 1 - 2 - 3 - 4\<close>, to probe the depth limit.\<close>

definition chain_db :: store where
  "chain_db =
     add_fact (mk_fact ''N'' ''3'' ''N'' ''4'' 100)
       (add_fact (mk_fact ''N'' ''2'' ''N'' ''3'' 100)
         (add_fact (mk_fact ''N'' ''1'' ''N'' ''2'' 100)
           (add_fact (mk_fact ''N'' ''0'' ''N'' ''1'' 100) empty_db)))"

section \<open>Notions used to state the properties\<close>


text \<open>
  The recurrence as the specification words it, for a path \<open>f[0..n-1]\<close>:
  \<open>path_trust_upto f i\<close> is the running trust once \<open>f[0..i]\<close> have been processed.
\<close>

fun path_trust_upto :: "Fact list \<Rightarrow> nat \<Rightarrow> rat" where
  "path_trust_upto f 0 = trust_score (f ! 0)"
| "path_trust_upto f (Suc i) =
     (let t = path_trust_upto f i;
          decay = (trust_score (f ! Suc i) * t) / 10000
      in min t (trust_score (f ! Suc i)) * decay)"

text \<open>
  Following a list of facts from a node: each fact must touch the node reached so far (by the
  test of \<^const>\<open>next_hop\<close>) and leads to the node on its other side. \<open>walk_end\<close> gives the
  node where the walk ends, as (value, category), or \<open>None\<close> when the facts do not chain.
\<close>

fun walk_end :: "Fact list \<Rightarrow> string \<Rightarrow> string \<Rightarrow> (string \<times> string) option" where
  "walk_end [] v c = Some (v, c)"
| "walk_end (f # fs) v c =
     (case next_hop f v c of None \<Rightarrow> None | Some (v', c') \<Rightarrow> walk_end fs v' c')"

text \<open>
  What \<^const>\<open>explore_path\<close> may add at a given depth to the path in progress: a non-empty
  extension by stored facts that walks from the current node to the target and keeps the
  depth within four.
\<close>

definition extends_path ::
    "store \<Rightarrow> Fact list \<Rightarrow> string \<Rightarrow> string \<Rightarrow> string \<Rightarrow> string \<Rightarrow> nat \<Rightarrow> Fact list \<Rightarrow> bool" where
  "extends_path facts cp cv cc tv tc depth p =
     (\<exists>ext. p = cp @ ext \<and> ext \<noteq> [] \<and> set ext \<subseteq> snd ` set facts \<and>
            length ext + depth \<le> 4 \<and> walk_end ext cv cc = Some (tv, tc))"

text \<open>
  An iteration order for sets of nodes, for concrete runs: the elements of the set in the order
  of a reference list.
\<close>

definition iter_in :: "node list \<Rightarrow> node set \<Rightarrow> node list" where
  "iter_in order S = filter (\<lambda>x. x \<in> S) order"

section \<open>Direct contradiction: properties\<close>

lemma directly_contradicts_sym: "directly_contradicts a b = directly_contradicts b a"
proof -
  obtain c1a v1a c2a v2a where a: "a = ((c1a, v1a), (c2a, v2a))" by (metis surj_pair)
  obtain c1b v1b c2b v2b where b: "b = ((c1b, v1b), (c2b, v2b))" by (metis surj_pair)
  show ?thesis unfolding a b by auto
qed

text \<open>
  Claim C2. Two address pairs directly contradict exactly when their category pairs agree (in
  order) and exactly one of the two values differs; no address pair contradicts itself, and
  pairs that differ on both values do not contradict.
\<close>

theorem directly_contradicts_characterisation:
  "directly_contradicts ((c1a, v1a), (c2a, v2a)) ((c1b, v1b), (c2b, v2b)) =
     (c1a = c1b \<and> c2a = c2b \<and>
      ((v1a = v1b \<and> v2a \<noteq> v2b) \<or> (v2a = v2b \<and> v1a \<noteq> v1b)))
   \<and> \<not> directly_contradicts k k
   \<and> (v1a \<noteq> v1b \<and> v2a \<noteq> v2b \<longrightarrow>
        \<not> directly_contradicts ((c1a, v1a), (c2a, v2a)) ((c1b, v1b), (c2b, v2b)))"
proof -
  obtain c1 v1 c2 v2 where k: "k = ((c1, v1), (c2, v2))" by (metis surj_pair)
  have "\<not> directly_contradicts k k" unfolding k by simp
  then show ?thesis by auto
qed

theorem directly_contradicts_characterisation_witness:
  "directly_contradicts ((''Name'', ''Brooke''), (''House'', ''Blue''))
                        ((''Name'', ''Alex''), (''House'', ''Blue''))
   \<and> \<not> directly_contradicts ((''Name'', ''Alex''), (''House'', ''Blue''))
                            ((''Name'', ''Alex''), (''House'', ''Blue''))
   \<and> \<not> directly_contradicts ((''Name'', ''Brooke''), (''House'', ''Red''))
                            ((''Name'', ''Alex''), (''House'', ''Blue''))"
  using directly_contradicts_characterisation
          [of "''Name''" "''Brooke''" "''House''" "''Red''" "''Name''" "''Alex''" "''House''"
              "''Blue''" "((''Name'', ''Alex''), (''House'', ''Blue''))"]
        directly_contradicts_characterisation
          [of "''Name''" "''Brooke''" "''House''" "''Blue''" "''Name''" "''Alex''" "''House''"
              "''Blue''" "((''Name'', ''Alex''), (''House'', ''Blue''))"]
  by simp

section \<open>Path trust: properties\<close>




lemma calculate_path_trust_single: "calculate_path_trust [f] = trust_score f"
  by (simp add: calculate_path_trust_def)

lemma fold_index_upto:
  "n < length path \<Longrightarrow>
   fold (\<lambda>i trust. let decay = (trust_score (path ! i) * trust) / 10000
                     in min trust (trust_score (path ! i)) * decay)
        [1 ..< Suc n] (trust_score (path ! 0)) = path_trust_upto path n"
  by (induction n) (simp_all add: Let_def)

text \<open>
  Claim C3. \<^const>\<open>calculate_path_trust\<close> is \<open>0\<close> on the empty path, the fact's own score on a
  single-fact path, and on a path of \<open>n \<ge> 1\<close> facts the value of the recurrence
  \<open>trust\<^sub>0 = f[0].trust_score\<close>, \<open>decay = f[i].trust_score * trust / 10000\<close>,
  \<open>trust\<^sub>i = min(trust, f[i].trust_score) * decay\<close> after its last index.
\<close>

theorem calculate_path_trust_recurrence:
  "calculate_path_trust [] = 0
   \<and> calculate_path_trust [f] = trust_score f
   \<and> (path \<noteq> [] \<longrightarrow> calculate_path_trust path = path_trust_upto path (length path - 1))"
proof -
  have "calculate_path_trust path = path_trust_upto path (length path - 1)" if "path \<noteq> []"
  proof -
    from that have n: "length path - 1 < length path" and s: "Suc (length path - 1) = length path"
      by (cases path; simp)+
    show ?thesis
      using fold_index_upto[OF n] that unfolding s by (simp add: calculate_path_trust_def)
  qed
  then show ?thesis
    by (simp add: calculate_path_trust_single) (simp add: calculate_path_trust_def)
qed

theorem calculate_path_trust_recurrence_witness:
  "[mk_fact ''Name'' ''Alex'' ''House'' ''Blue'' 90,
    mk_fact ''House'' ''Blue'' ''Job'' ''Doctor'' 80] \<noteq> []
   \<and> calculate_path_trust [mk_fact ''Name'' ''Alex'' ''House'' ''Blue'' 90,
                            mk_fact ''House'' ''Blue'' ''Job'' ''Doctor'' 80]
     = min 90 80 * ((80 * 90) / 10000)"
  using calculate_path_trust_recurrence
          [of "mk_fact ''Name'' ''Alex'' ''House'' ''Blue'' 90"
              "[mk_fact ''Name'' ''Alex'' ''House'' ''Blue'' 90,
                mk_fact ''House'' ''Blue'' ''Job'' ''Doctor'' 80]"]
  by (simp add: mk_fact_def Let_def)

section \<open>Supporting-path search: invariants\<close>

lemma extends_path_single:
  "(k, f) \<in> set facts \<Longrightarrow> depth \<le> 3 \<Longrightarrow> next_hop f cv cc = Some (tv, tc) \<Longrightarrow>
   extends_path facts cp cv cc tv tc depth (cp @ [f])"
  unfolding extends_path_def
  by (rule exI[of _ "[f]"]) (auto simp: image_iff intro: bexI[of _ "(k, f)"])

lemma extends_path_step:
  "(k, f) \<in> set facts \<Longrightarrow> next_hop f cv cc = Some (nv, nc) \<Longrightarrow>
   extends_path facts (cp @ [f]) nv nc tv tc (depth + 1) p \<Longrightarrow>
   extends_path facts cp cv cc tv tc depth p"
  unfolding extends_path_def
  apply (erule exE)
  subgoal for ext
    by (rule exI[of _ "f # ext"]) (auto simp: image_iff intro: bexI[of _ "(k, f)"])
  done

text \<open>
  Every path in the state after a call was there before, or extends the path in progress as
  \<^const>\<open>extends_path\<close> says. The loop is only entered at depths up to three.
\<close>

lemma explore_paths_invariant:
  "p \<in> set (paths (explore_path facts st cv cc tv tc cp depth)) \<Longrightarrow>
     p \<in> set (paths st) \<or> extends_path facts cp cv cc tv tc depth p"
  "set items \<subseteq> set facts \<Longrightarrow> depth \<le> 3 \<Longrightarrow>
   p \<in> set (paths (explore_loop facts items st cv cc tv tc cp depth)) \<Longrightarrow>
     p \<in> set (paths st) \<or> extends_path facts cp cv cc tv tc depth p"
proof (induction facts st cv cc tv tc cp depth and facts items st cv cc tv tc cp depth
       arbitrary: p and p rule: explore_path_explore_loop.induct)
  case (1 facts st cv cc tv tc cp depth)
  then show ?case by (auto simp: explore_path.simps split: if_splits)
next
  case (2 facts st cv cc tv tc cp depth)
  then show ?case by simp
next
  case (3 facts key fct rest st cv cc tv tc cp depth)
  have sub: "set rest \<subseteq> set facts" and mem: "(key, fct) \<in> set facts"
    using "3.prems"(1) by auto
  note d = "3.prems"(2)
  show ?case
  proof (cases "key \<in> visited st")
    case True
    with "3.prems"(3) have "p \<in> set (paths (explore_loop facts rest st cv cc tv tc cp depth))"
      by simp
    from "3.IH"(1)[OF True sub d this] show ?thesis .
  next
    case nv: False
    show ?thesis
    proof (cases "next_hop fct cv cc")
      case None
      with nv "3.prems"(3)
      have "p \<in> set (paths (explore_loop facts rest st cv cc tv tc cp depth))"
        by simp
      from "3.IH"(2)[OF nv None sub d this] show ?thesis .
    next
      case (Some nx)
      obtain x y where nx: "nx = (x, y)" by (cases nx)
      define st1 where "st1 = st\<lparr>visited := insert key (visited st)\<rparr>"
      define new_path where "new_path = cp @ [fct]"
      define st2 where "st2 =
        (if y = tc \<and> x = tv
         then let path_key = key_of ` set new_path
              in if path_key \<notin> seen_paths st1
                 then st1\<lparr>paths := paths st1 @ [new_path],
                          seen_paths := insert path_key (seen_paths st1)\<rparr>
                 else st1
         else explore_path facts st1 x y tv tc new_path (depth + 1))"
      define st3 where "st3 = st2\<lparr>visited := visited st2 - {key}\<rparr>"
      have unfold: "explore_loop facts ((key, fct) # rest) st cv cc tv tc cp depth =
                    explore_loop facts rest st3 cv cc tv tc cp depth"
        using nv Some nx by (simp add: st1_def new_path_def st2_def st3_def Let_def)
      have hop: "next_hop fct cv cc = Some (x, y)" using Some nx by simp
      have st2_inv: "q \<in> set (paths st) \<or> extends_path facts cp cv cc tv tc depth q"
        if q: "q \<in> set (paths st2)" for q
      proof (cases "y = tc \<and> x = tv")
        case True
        then have "q \<in> set (paths st) \<or> q = new_path"
          using q by (auto simp: st2_def st1_def Let_def split: if_splits)
        moreover have "extends_path facts cp cv cc tv tc depth new_path"
          unfolding new_path_def using mem d hop True by (auto intro: extends_path_single)
        ultimately show ?thesis by auto
      next
        case False
        have "st2 = explore_path facts st1 x y tv tc new_path (depth + 1)"
          unfolding st2_def by (rule if_not_P[OF False])
        with q have "q \<in> set (paths (explore_path facts st1 x y tv tc new_path (depth + 1)))"
          by simp
        from "3.IH"(3)[OF nv Some nx[symmetric] st1_def new_path_def False this]
        have "q \<in> set (paths st1) \<or> extends_path facts new_path x y tv tc (depth + 1) q" .
        then show ?thesis
          using extends_path_step[OF mem hop, of cp tv tc depth q]
          by (auto simp: st1_def new_path_def)
      qed
      from "3.prems"(3)
      have "p \<in> set (paths (explore_loop facts rest st3 cv cc tv tc cp depth))"
        by (simp only: unfold)
      from "3.IH"(4)[OF nv Some nx[symmetric] st1_def new_path_def
                        st2_def[unfolded new_path_def[symmetric]] st3_def sub d this]
      have "p \<in> set (paths st3) \<or> extends_path facts cp cv cc tv tc depth p" .
      then show ?thesis using st2_inv[of p] by (auto simp: st3_def)
    qed
  qed
qed

text \<open>What the search returns: non-empty lists of at most four stored facts that walk from
  the first node of the key to the second.\<close>

lemma find_supporting_paths_sound:
  assumes "p \<in> set (find_supporting_paths facts ((cat1, val1), (cat2, val2)))"
  shows "p \<noteq> []" and "length p \<le> 4" and "set p \<subseteq> snd ` set facts"
    and "walk_end p val1 cat1 = Some (val2, cat2)"
proof -
  from assms have "extends_path facts [] val1 cat1 val2 cat2 0 p"
    using explore_paths_invariant(1)
            [of p facts "\<lparr>visited = {}, paths = [], seen_paths = {}\<rparr>" val1 cat1 val2 cat2 "[]" 0]
    by (simp add: find_supporting_paths_def)
  then show "p \<noteq> []" and "length p \<le> 4" and "set p \<subseteq> snd ` set facts"
    and "walk_end p val1 cat1 = Some (val2, cat2)"
    by (auto simp: extends_path_def)
qed

text \<open>
  \<^verbatim>\<open>visited.remove(key)\<close> raises \<^verbatim>\<open>KeyError\<close> on a key that is not in the set. It never
  does: every call returns \<^verbatim>\<open>visited\<close> as it found it, so the key added before the
  recursive call is still there after it.
\<close>

lemma explore_visited:
  "visited (explore_path facts st cv cc tv tc cp depth) = visited st"
  "visited (explore_loop facts items st cv cc tv tc cp depth) = visited st"
proof (induction facts st cv cc tv tc cp depth and facts items st cv cc tv tc cp depth
       rule: explore_path_explore_loop.induct)
  case (1 facts st cv cc tv tc cp depth)
  then show ?case by (simp add: explore_path.simps)
next
  case (2 facts st cv cc tv tc cp depth)
  then show ?case by simp
next
  case (3 facts key fct rest st cv cc tv tc cp depth)
  show ?case
  proof (cases "key \<in> visited st")
    case True
    with "3.IH"(1) show ?thesis by simp
  next
    case nv: False
    show ?thesis
    proof (cases "next_hop fct cv cc")
      case None
      with nv "3.IH"(2) show ?thesis by simp
    next
      case (Some nx)
      obtain x y where nx: "nx = (x, y)" by (cases nx)
      define st1 where "st1 = st\<lparr>visited := insert key (visited st)\<rparr>"
      define new_path where "new_path = cp @ [fct]"
      define st2 where "st2 =
        (if y = tc \<and> x = tv
         then let path_key = key_of ` set new_path
              in if path_key \<notin> seen_paths st1
                 then st1\<lparr>paths := paths st1 @ [new_path],
                          seen_paths := insert path_key (seen_paths st1)\<rparr>
                 else st1
         else explore_path facts st1 x y tv tc new_path (depth + 1))"
      define st3 where "st3 = st2\<lparr>visited := visited st2 - {key}\<rparr>"
      have unfold: "explore_loop facts ((key, fct) # rest) st cv cc tv tc cp depth =
                    explore_loop facts rest st3 cv cc tv tc cp depth"
        using nv Some nx by (simp add: st1_def new_path_def st2_def st3_def Let_def)
      have "visited st2 = visited st1"
      proof (cases "y = tc \<and> x = tv")
        case True
        then show ?thesis by (simp add: st2_def Let_def)
      next
        case False
        have "st2 = explore_path facts st1 x y tv tc new_path (depth + 1)"
          unfolding st2_def by (rule if_not_P[OF False])
        with "3.IH"(3)[OF nv Some nx[symmetric] st1_def new_path_def False]
        show ?thesis by simp
      qed
      then have "visited st3 = visited st" using nv by (simp add: st3_def st1_def)
      with "3.IH"(4)[OF nv Some nx[symmetric] st1_def new_path_def
                        st2_def[unfolded new_path_def[symmetric]] st3_def]
      show ?thesis by (simp only: unfold)
    qed
  qed
qed

lemma chain_db_paths:
  "find_supporting_paths chain_db ((''N'', ''0''), (''N'', ''4'')) =
     [[mk_fact ''N'' ''0'' ''N'' ''1'' 100, mk_fact ''N'' ''1'' ''N'' ''2'' 100,
       mk_fact ''N'' ''2'' ''N'' ''3'' 100, mk_fact ''N'' ''3'' ''N'' ''4'' 100]]"
  by code_simp

text \<open>
  Claim C4. The depth test \<^verbatim>\<open>depth > 3\<close> comes after a hop has been appended: no path
  returned by \<^verbatim>\<open>_find_supporting_paths\<close> has more than four facts, and on the four-fact
  chain \<^const>\<open>chain_db\<close> the search returns a path of exactly four facts.
\<close>

theorem find_supporting_paths_depth_bound:
  "(\<forall>p \<in> set (find_supporting_paths facts fact_key). length p \<le> 4)
   \<and> (\<exists>p \<in> set (find_supporting_paths chain_db ((''N'', ''0''), (''N'', ''4''))). length p = 4)"
proof -
  obtain cat1 val1 cat2 val2 where k: "fact_key = ((cat1, val1), (cat2, val2))"
    by (metis surj_pair)
  have "\<forall>p \<in> set (find_supporting_paths facts fact_key). length p \<le> 4"
    unfolding k using find_supporting_paths_sound(2) by blast
  moreover
  have "\<exists>p \<in> set (find_supporting_paths chain_db ((''N'', ''0''), (''N'', ''4''))). length p = 4"
    unfolding chain_db_paths by simp
  ultimately show ?thesis by blast
qed

lemma multiple_paths_db_paths:
  "find_supporting_paths multiple_paths_db ((''Name'', ''Alex''), (''Job'', ''Doctor'')) =
     [[mk_fact ''Name'' ''Alex'' ''House'' ''Blue'' 90,
       mk_fact ''House'' ''Blue'' ''Job'' ''Doctor'' 80],
      [mk_fact ''Name'' ''Alex'' ''Drink'' ''Coffee'' 85,
       mk_fact ''Job'' ''Doctor'' ''Drink'' ''Coffee'' 75]]"
  by code_simp

theorem find_supporting_paths_depth_bound_witness:
  "length (hd (find_supporting_paths multiple_paths_db
                 ((''Name'', ''Alex''), (''Job'', ''Doctor'')))) \<le> 4
   \<and> length (hd (find_supporting_paths chain_db ((''N'', ''0''), (''N'', ''4'')))) = 4"
proof -
  have "hd (find_supporting_paths multiple_paths_db ((''Name'', ''Alex''), (''Job'', ''Doctor'')))
        \<in> set (find_supporting_paths multiple_paths_db ((''Name'', ''Alex''), (''Job'', ''Doctor'')))"
    unfolding multiple_paths_db_paths by simp
  with find_supporting_paths_depth_bound
         [of multiple_paths_db "((''Name'', ''Alex''), (''Job'', ''Doctor''))"]
  have "length (hd (find_supporting_paths multiple_paths_db
                      ((''Name'', ''Alex''), (''Job'', ''Doctor'')))) \<le> 4"
    by blast
  moreover
  have "length (hd (find_supporting_paths chain_db ((''N'', ''0''), (''N'', ''4'')))) = 4"
    unfolding chain_db_paths by simp
  ultimately show ?thesis by simp
qed

section \<open>The worked scenario\<close>

text \<open>
  Claim C9. On the five-fact fixture extended by \<^verbatim>\<open>Name=Alex - Drink=Coffee (85)\<close> and
  \<^verbatim>\<open>Job=Doctor - Drink=Coffee (75)\<close>, the second overwriting the fixture's fact under the
  same key, \<^verbatim>\<open>analyze_fact_relationships("Name", "Alex", "Job", "Doctor")\<close> has exactly two
  entries under \<^verbatim>\<open>"supporting_facts"\<close>, whatever the iteration order of sets.
\<close>

theorem multiple_paths_two_supporting_entries:
  "length (supporting_facts
             (analyze_fact_relationships iter multiple_paths_db
                ''Name'' ''Alex'' ''Job'' ''Doctor'')) = 2"
  unfolding analyze_fact_relationships_def Let_def
  by (simp add: multiple_paths_db_paths)

section \<open>The store: properties\<close>

lemma map_of_dict_set: "map_of (dict_set facts k v) = (map_of facts)(k \<mapsto> v)"
  by (induction facts k v rule: dict_set.induct) auto

lemma keys_dict_set:
  "map fst (dict_set facts k v) = (if k \<in> fst ` set facts then map fst facts else map fst facts @ [k])"
  by (induction facts k v rule: dict_set.induct) auto

lemma set_dict_set: "set (dict_set facts k v) \<subseteq> insert (k, v) (set facts)"
  by (induction facts k v rule: dict_set.induct) auto

lemma wf_store_add_fact: "wf_store facts \<Longrightarrow> wf_store (add_fact fct facts)"
  unfolding wf_store_def add_fact_def
  using set_dict_set[of facts "key_of fct" fct]
  by (auto simp: keys_dict_set list_all_iff)

lemma wf_store_fold: "wf_store facts \<Longrightarrow> wf_store (fold add_fact fs facts)"
  by (induction fs arbitrary: facts) (auto simp: wf_store_add_fact)

lemma wf_store_empty: "wf_store empty_db"
  by (simp add: wf_store_def empty_db_def)

text \<open>
  Claim C8. \<^verbatim>\<open>add_fact\<close> puts the fact under its ordered address pair and leaves every other
  entry as it was; an existing key keeps its place in the iteration order, a new one goes
  last. Keys stay unique, each entry stays under the address pair of its own fact, and so every
  store built from the empty one by \<^verbatim>\<open>add_fact\<close> holds at most one fact per ordered address
  pair. The queries read \<^verbatim>\<open>self.facts\<close> and never assign to it: they are functions of the
  store that return no store.
\<close>

theorem add_fact_last_write_wins:
  "map_of (add_fact fct facts) = (map_of facts)(key_of fct \<mapsto> fct)
   \<and> map fst (add_fact fct facts) =
        (if key_of fct \<in> fst ` set facts then map fst facts else map fst facts @ [key_of fct])
   \<and> (distinct (map fst facts) \<longrightarrow> distinct (map fst (add_fact fct facts)))
   \<and> (wf_store facts \<longrightarrow> wf_store (add_fact fct facts))
   \<and> wf_store (fold add_fact fs empty_db)"
proof -
  have "distinct (map fst (add_fact fct facts))" if "distinct (map fst facts)"
    using that by (auto simp: add_fact_def keys_dict_set)
  then show ?thesis
    by (simp add: add_fact_def map_of_dict_set keys_dict_set wf_store_fold wf_store_empty
          wf_store_add_fact[unfolded add_fact_def])
qed

lemma wf_store_populated_db: "wf_store populated_db"
  unfolding populated_db_def by (intro wf_store_add_fact wf_store_empty)

theorem add_fact_last_write_wins_witness:
  "wf_store populated_db
   \<and> map_of (add_fact (mk_fact ''Job'' ''Doctor'' ''Drink'' ''Coffee'' 75) populated_db)
       ((''Job'', ''Doctor''), (''Drink'', ''Coffee''))
     = Some (mk_fact ''Job'' ''Doctor'' ''Drink'' ''Coffee'' 75)
   \<and> map fst (add_fact (mk_fact ''Job'' ''Doctor'' ''Drink'' ''Coffee'' 75) populated_db)
     = map fst populated_db
   \<and> wf_store (add_fact (mk_fact ''Job'' ''Doctor'' ''Drink'' ''Coffee'' 75) populated_db)"
proof -
  have k: "key_of (mk_fact ''Job'' ''Doctor'' ''Drink'' ''Coffee'' 75)
           = ((''Job'', ''Doctor''), (''Drink'', ''Coffee''))"
    by (simp add: key_of_def mk_fact_def)
  have m: "((''Job'', ''Doctor''), (''Drink'', ''Coffee'')) \<in> fst ` set populated_db"
    by code_simp
  from add_fact_last_write_wins
         [of "mk_fact ''Job'' ''Doctor'' ''Drink'' ''Coffee'' 75" populated_db "[]"]
       wf_store_populated_db k m
  show ?thesis by simp
qed

section \<open>Path trust: bounds and monotonicity\<close>








section \<open>Trust of a candidate fact: properties\<close>



lemma fold_max_Max:
  "fold (\<lambda>g m. max m (h g)) xs (a::rat) = Max (insert a (h ` set xs))"
proof (induction xs arbitrary: a)
  case Nil
  then show ?case by simp
next
  case (Cons x xs)
  have "Max (insert (max a (h x)) (h ` set xs)) = Max (insert a (insert (h x) (h ` set xs)))"
    by (cases "xs = []") (simp_all add: max.assoc)
  with Cons show ?case by simp
qed

lemma get_fact_trust_cases:
  "get_fact_trust facts cat1 val1 cat2 val2 =
     (let ds = map snd (filter (\<lambda>(k, f). directly_contradicts ((cat1, val1), (cat2, val2)) k) facts);
          sp = find_supporting_paths facts ((cat1, val1), (cat2, val2))
      in if ds \<noteq> [] then max 0 (100 - Max (trust_score ` set ds))
         else if sp \<noteq> [] then max 0 (Max (calculate_path_trust ` set sp))
         else 50)"
proof -
  let ?ds = "map snd (filter (\<lambda>(k, f). directly_contradicts ((cat1, val1), (cat2, val2)) k) facts)"
  let ?sp = "find_supporting_paths facts ((cat1, val1), (cat2, val2))"
  show ?thesis
  proof (cases ?ds)
    case Nil
    show ?thesis
    proof (cases "?sp = []")
      case True
      with Nil show ?thesis by (simp add: get_fact_trust_def)
    next
      case False
      then have "Max (insert 0 (calculate_path_trust ` set ?sp))
                 = max 0 (Max (calculate_path_trust ` set ?sp))"
        by simp
      with Nil False show ?thesis
        by (simp add: get_fact_trust_def fold_max_Max)
    qed
  next
    case (Cons d ds)
    then show ?thesis
      by (simp add: get_fact_trust_def fold_max_Max)
  qed
qed









section \<open>The diagnostic query: properties\<close>

lemma analyze_direct_contradictions:
  "direct_contradictions (analyze_fact_relationships iter facts cat1 val1 cat2 val2) =
     map (\<lambda>f. \<lparr>item = f, trust = trust_score f\<rparr>)
       (map snd (filter (\<lambda>(k, f). directly_contradicts ((cat1, val1), (cat2, val2)) k) facts))"
  unfolding analyze_fact_relationships_def Let_def
  by (simp add: case_prod_unfold comp_def)

lemma analyze_supporting_facts:
  "supporting_facts (analyze_fact_relationships iter facts cat1 val1 cat2 val2) =
     map (\<lambda>path. \<lparr>item = path, trust = calculate_path_trust path\<rparr>)
       (find_supporting_paths facts ((cat1, val1), (cat2, val2)))"
  unfolding analyze_fact_relationships_def Let_def by simp

lemma analyze_indirect_contradictions:
  "indirect_contradictions (analyze_fact_relationships iter facts cat1 val1 cat2 val2) =
     map (\<lambda>c. \<lparr>item = c, trust = calculate_contradiction_impact c\<rparr>)
       (find_indirect_contradictions iter facts ((cat1, val1), (cat2, val2)))"
  unfolding analyze_fact_relationships_def Let_def by simp






section \<open>Indirect contradictions: properties\<close>

lemma find_all_connections_fold:
  "fold (\<lambda>(key, fct) connections.
             if category1 fct = category \<and> value1 fct = val
             then insert (category2 fct, value2 fct) connections
             else if category2 fct = category \<and> value2 fct = val
             then insert (category1 fct, value1 fct) connections
             else connections) facts S
   = S \<union> {(c', v'). \<exists>e \<in> set facts. next_hop (snd e) val category = Some (v', c')}"
proof (induction facts arbitrary: S)
  case Nil
  then show ?case by simp
next
  case (Cons e facts)
  obtain k f where e: "e = (k, f)" by (cases e)
  show ?case unfolding e
    by (simp add: Cons.IH) (auto simp: next_hop_def split: if_splits)
qed

lemma find_all_connections_one_hop:
  "find_all_connections facts category val =
     {(c', v'). \<exists>e \<in> set facts. next_hop (snd e) val category = Some (v', c')}"
  unfolding find_all_connections_def find_all_connections_fold by simp

lemma leads_to_contradiction_iff:
  "leads_to_contradiction path fact_key =
     (path \<noteq> [] \<and> directly_contradicts (key_of (last path)) fact_key)"
  by (simp add: leads_to_contradiction_def key_of_def Let_def)

lemma find_indirect_contradictions_mem:
  "p \<in> set (find_indirect_contradictions iter facts ((cat1, val1), (cat2, val2))) =
     (leads_to_contradiction p ((cat1, val1), (cat2, val2)) \<and>
      ((\<exists>x \<in> set (iter (find_all_connections facts cat1 val1)).
           p \<in> set (find_supporting_paths facts ((cat1, val1), x))) \<or>
       (\<exists>x \<in> set (iter (find_all_connections facts cat2 val2)).
           p \<in> set (find_supporting_paths facts ((cat2, val2), x)))))"
  unfolding find_indirect_contradictions_def Let_def
  by (auto simp: case_prod_unfold)

text \<open>
  Claim C5. Every path returned by \<^verbatim>\<open>_find_indirect_contradictions\<close> is non-empty and the
  address pair of its last fact directly contradicts the candidate's; and, the iteration
  listing only members of the two connection sets, the path is one that the supporting-path
  search returns from an endpoint of the candidate to a node \<open>(xc, xv)\<close> of that endpoint's
  connections, which a stored fact joins to the endpoint in one hop, and the path walks from
  the endpoint to that node.
\<close>

theorem indirect_contradictions_sound:
  assumes "p \<in> set (find_indirect_contradictions iter facts ((cat1, val1), (cat2, val2)))"
    and "set (iter (find_all_connections facts cat1 val1)) \<subseteq> find_all_connections facts cat1 val1"
    and "set (iter (find_all_connections facts cat2 val2)) \<subseteq> find_all_connections facts cat2 val2"
  shows "p \<noteq> [] \<and> directly_contradicts (key_of (last p)) ((cat1, val1), (cat2, val2))
     \<and> ((\<exists>xc xv. (xc, xv) \<in> find_all_connections facts cat1 val1
            \<and> (\<exists>e \<in> set facts. next_hop (snd e) val1 cat1 = Some (xv, xc))
            \<and> p \<in> set (find_supporting_paths facts ((cat1, val1), (xc, xv)))
            \<and> walk_end p val1 cat1 = Some (xv, xc))
        \<or> (\<exists>xc xv. (xc, xv) \<in> find_all_connections facts cat2 val2
            \<and> (\<exists>e \<in> set facts. next_hop (snd e) val2 cat2 = Some (xv, xc))
            \<and> p \<in> set (find_supporting_paths facts ((cat2, val2), (xc, xv)))
            \<and> walk_end p val2 cat2 = Some (xv, xc)))"
proof -
  from assms(1) have ltc: "leads_to_contradiction p ((cat1, val1), (cat2, val2))"
    and alt: "(\<exists>x \<in> set (iter (find_all_connections facts cat1 val1)).
                 p \<in> set (find_supporting_paths facts ((cat1, val1), x))) \<or>
              (\<exists>x \<in> set (iter (find_all_connections facts cat2 val2)).
                 p \<in> set (find_supporting_paths facts ((cat2, val2), x)))"
    unfolding find_indirect_contradictions_mem by blast+
  have from_node: "\<exists>xc xv. (xc, xv) \<in> find_all_connections facts c v
            \<and> (\<exists>e \<in> set facts. next_hop (snd e) v c = Some (xv, xc))
            \<and> p \<in> set (find_supporting_paths facts ((c, v), (xc, xv)))
            \<and> walk_end p v c = Some (xv, xc)"
    if x: "x \<in> set (iter (find_all_connections facts c v))"
      and sub: "set (iter (find_all_connections facts c v)) \<subseteq> find_all_connections facts c v"
      and p: "p \<in> set (find_supporting_paths facts ((c, v), x))" for c v x
  proof -
    obtain xc xv where xx: "x = (xc, xv)" by (cases x)
    from x sub have conn: "(xc, xv) \<in> find_all_connections facts c v" unfolding xx by blast
    then have hop: "\<exists>e \<in> set facts. next_hop (snd e) v c = Some (xv, xc)"
      unfolding find_all_connections_one_hop by simp
    from p have p': "p \<in> set (find_supporting_paths facts ((c, v), (xc, xv)))" unfolding xx .
    from conn hop p' find_supporting_paths_sound(4)[OF p'] show ?thesis by blast
  qed
  from alt from_node assms(2,3) ltc show ?thesis
    unfolding leads_to_contradiction_iff by blast
qed

lemma populated_db_alex_red:
  "find_indirect_contradictions (iter_in [(''House'', ''Blue''), (''Job'', ''Teacher'')])
     populated_db ((''Name'', ''Alex''), (''House'', ''Red''))
   = [[mk_fact ''Name'' ''Alex'' ''House'' ''Blue'' 90]]"
  by code_simp

lemma populated_db_iter_sound:
  "set (iter_in [(''House'', ''Blue''), (''Job'', ''Teacher'')]
          (find_all_connections populated_db ''Name'' ''Alex''))
     \<subseteq> find_all_connections populated_db ''Name'' ''Alex''"
  "set (iter_in [(''House'', ''Blue''), (''Job'', ''Teacher'')]
          (find_all_connections populated_db ''House'' ''Red''))
     \<subseteq> find_all_connections populated_db ''House'' ''Red''"
  by (auto simp: iter_in_def)

theorem indirect_contradictions_sound_witness:
  "[mk_fact ''Name'' ''Alex'' ''House'' ''Blue'' 90]
     \<in> set (find_indirect_contradictions (iter_in [(''House'', ''Blue''), (''Job'', ''Teacher'')])
              populated_db ((''Name'', ''Alex''), (''House'', ''Red'')))
   \<and> directly_contradicts (key_of (last [mk_fact ''Name'' ''Alex'' ''House'' ''Blue'' 90]))
        ((''Name'', ''Alex''), (''House'', ''Red''))"
proof -
  have m: "[mk_fact ''Name'' ''Alex'' ''House'' ''Blue'' 90]
     \<in> set (find_indirect_contradictions (iter_in [(''House'', ''Blue''), (''Job'', ''Teacher'')])
              populated_db ((''Name'', ''Alex''), (''House'', ''Red'')))"
    unfolding populated_db_alex_red by simp
  from indirect_contradictions_sound[OF m populated_db_iter_sound] m
  show ?thesis by blast
qed

section \<open>The neutral default\<close>

lemma no_indirect_without_direct:
  assumes wf: "wf_store facts"
    and none: "filter (\<lambda>(k, f). directly_contradicts ((cat1, val1), (cat2, val2)) k) facts = []"
  shows "find_indirect_contradictions iter facts ((cat1, val1), (cat2, val2)) = []"
proof (rule ccontr)
  assume "find_indirect_contradictions iter facts ((cat1, val1), (cat2, val2)) \<noteq> []"
  then obtain p where "p \<in> set (find_indirect_contradictions iter facts ((cat1, val1), (cat2, val2)))"
    by (cases "find_indirect_contradictions iter facts ((cat1, val1), (cat2, val2))") auto
  then have ltc: "leads_to_contradiction p ((cat1, val1), (cat2, val2))"
    and "\<exists>a x. p \<in> set (find_supporting_paths facts (a, x))"
    unfolding find_indirect_contradictions_mem by blast+
  then obtain c v xc xv where "p \<in> set (find_supporting_paths facts ((c, v), (xc, xv)))"
    by (metis surj_pair)
  from find_supporting_paths_sound(3)[OF this] ltc
  have "last p \<in> snd ` set facts" and dc: "directly_contradicts (key_of (last p)) ((cat1, val1), (cat2, val2))"
    by (auto simp: leads_to_contradiction_iff)
  then obtain k where mem: "(k, last p) \<in> set facts" by auto
  with wf have "k = key_of (last p)" by (auto simp: wf_store_def list_all_iff)
  with dc have "directly_contradicts ((cat1, val1), (cat2, val2)) k"
    by (simp add: directly_contradicts_sym)
  with mem have "(k, last p) \<in> set (filter (\<lambda>(k, f). directly_contradicts ((cat1, val1), (cat2, val2)) k) facts)"
    by simp
  with none show False by simp
qed

lemma find_supporting_paths_empty_db:
  "find_supporting_paths empty_db ((cat1, val1), (cat2, val2)) = []"
  by (simp add: find_supporting_paths_def empty_db_def explore_path.simps)

text \<open>A store in which no chain of stored facts leads from the first node to the second has
  no supporting path for the search to find.\<close>

lemma no_walk_no_supporting_path:
  assumes "\<And>p. set p \<subseteq> snd ` set facts \<Longrightarrow> walk_end p val1 cat1 \<noteq> Some (val2, cat2)"
  shows "find_supporting_paths facts ((cat1, val1), (cat2, val2)) = []"
proof (cases "find_supporting_paths facts ((cat1, val1), (cat2, val2))")
  case Nil
  then show ?thesis .
next
  case (Cons p ps)
  then have "p \<in> set (find_supporting_paths facts ((cat1, val1), (cat2, val2)))" by simp
  from find_supporting_paths_sound(3,4)[OF this] assms show ?thesis by blast
qed

text \<open>
  Claim C7. On the empty store \<^verbatim>\<open>get_fact_trust\<close> is \<open>50\<close> for every input. For any store
  and any four strings, when no stored fact directly contradicts the candidate and the search
  finds no supporting path, \<^verbatim>\<open>get_fact_trust\<close> is \<open>50\<close> and
  \<^verbatim>\<open>analyze_fact_relationships\<close> returns three empty lists (the third for every store that
  \<^verbatim>\<open>add_fact\<close> can build, whatever the iteration order of sets). The functions are total: the
  source raises only from \<^verbatim>\<open>max\<close> of an empty sequence, which its test guards, and from
  \<^verbatim>\<open>visited.remove\<close>, whose key is present by \<open>explore_visited\<close>.
\<close>

theorem neutral_default:
  "get_fact_trust empty_db cat1 val1 cat2 val2 = 50
   \<and> ({e \<in> set facts. directly_contradicts ((cat1, val1), (cat2, val2)) (fst e)} = {}
        \<and> find_supporting_paths facts ((cat1, val1), (cat2, val2)) = []
      \<longrightarrow> get_fact_trust facts cat1 val1 cat2 val2 = 50
          \<and> direct_contradictions (analyze_fact_relationships iter facts cat1 val1 cat2 val2) = []
          \<and> supporting_facts (analyze_fact_relationships iter facts cat1 val1 cat2 val2) = []
          \<and> (wf_store facts \<longrightarrow>
               indirect_contradictions
                 (analyze_fact_relationships iter facts cat1 val1 cat2 val2) = []))"
proof -
  let ?none = "filter (\<lambda>(k, f). directly_contradicts ((cat1, val1), (cat2, val2)) k) facts = []"
  have conv: "({e \<in> set facts. directly_contradicts ((cat1, val1), (cat2, val2)) (fst e)} = {})
              = ?none"
    by (simp only: filter_empty_conv case_prod_unfold) blast
  have "get_fact_trust empty_db cat1 val1 cat2 val2 = 50"
    unfolding get_fact_trust_cases Let_def find_supporting_paths_empty_db
    by (simp add: empty_db_def)
  moreover have "get_fact_trust facts cat1 val1 cat2 val2 = 50"
    if ?none "find_supporting_paths facts ((cat1, val1), (cat2, val2)) = []"
    unfolding get_fact_trust_cases Let_def using that by simp
  ultimately show ?thesis
    unfolding conv
    by (simp add: analyze_direct_contradictions analyze_supporting_facts
          analyze_indirect_contradictions no_indirect_without_direct)
qed

lemma populated_db_empty_strings:
  "find_supporting_paths populated_db (([], []), ([], [])) = []"
  "filter (\<lambda>(k, f). directly_contradicts (([], []), ([], [])) k) populated_db = []"
  by code_simp+

theorem neutral_default_witness:
  "get_fact_trust populated_db [] [] [] [] = 50
   \<and> analyze_fact_relationships (iter_in []) populated_db [] [] [] []
     = \<lparr>direct_contradictions = [], supporting_facts = [], indirect_contradictions = []\<rparr>"
proof -
  have "{e \<in> set populated_db. directly_contradicts (([], []), ([], [])) (fst e)} = {}"
    using populated_db_empty_strings(2) by (auto simp: filter_empty_conv)
  with neutral_default[of "[]" "[]" "[]" "[]" populated_db "iter_in []"]
       populated_db_empty_strings(1) wf_store_populated_db
  show ?thesis by simp
qed

end
